theory Spec2Isabelle
  imports Main "HOL-Library.Multiset" "HOL-Library.AList"
begin

section \<open>Data model\<close>

text \<open>
  \<^verbatim>\<open>sdk.Dec\<close> is a fixed-point decimal with 18 fractional digits over an unbounded
  integer; it is represented by that integer, and \<^verbatim>\<open>LT\<close> is \<open><\<close> on it.
  Assets (currency pairs) and provider handles are identified by strings.
\<close>

type_synonym Dec = int
type_synonym asset = string
type_synonym provider = string

text \<open>
  \<^verbatim>\<open>types.TickerPrice\<close> is declared outside the files at hand; \<^verbatim>\<open>ComputeMedian\<close>
  reads only its \<^verbatim>\<open>Price\<close> field.  Every function below is stated over the record scheme,
  so it covers any further fields the struct has.
\<close>

record TickerPrice =
  Price :: Dec

text \<open>
  A Go map that is ranged over is an association list in iteration order.
  \<^verbatim>\<open>types.AggregatedProviderPrices\<close> is \<^verbatim>\<open>map[Provider]map[string]TickerPrice\<close>.
\<close>

type_synonym 'a provider_prices = "(asset \<times> 'a TickerPrice_scheme) list"
type_synonym 'a AggregatedProviderPrices = "(provider \<times> 'a provider_prices) list"

datatype error =
    IndexOutOfRange nat nat
  | PanicInFetchPricesFn string
  | PanicWhenFetchingPrices string
  | ProviderError string
  | RuntimePanic string

section \<open>ComputeMedian\<close>

text \<open>
  \<^verbatim>\<open>sort.SliceStable(prices, less)\<close> belongs to Go's standard library: a stable sort
  driven by the comparator.  It is modelled as the insertion sort that takes the elements
  in slice order and places each one behind every element that is not greater under the
  comparator, so equal elements keep their order.
\<close>

fun insertStable :: "('a \<Rightarrow> 'a \<Rightarrow> bool) \<Rightarrow> 'a \<Rightarrow> 'a list \<Rightarrow> 'a list" where
  "insertStable lt x [] = [x]"
| "insertStable lt x (y # ys) =
     (if lt x y then x # y # ys else y # insertStable lt x ys)"

definition SliceStable :: "('a \<Rightarrow> 'a \<Rightarrow> bool) \<Rightarrow> 'a list \<Rightarrow> 'a list" where
  "SliceStable lt xs = foldl (\<lambda>acc x. insertStable lt x acc) [] xs"

text \<open>The comparator of the source: \<^verbatim>\<open>prices[i].Price.LT(prices[j].Price)\<close>.\<close>

definition priceLT :: "'a TickerPrice_scheme \<Rightarrow> 'a TickerPrice_scheme \<Rightarrow> bool" where
  "priceLT a b = (Price a < Price b)"

text \<open>
  The body of the first inner loop: initialise the asset's slice when the key is missing,
  then append the price.  Reading a missing key yields the nil slice.
\<close>

definition slice_at :: "(asset \<times> 'p list) list \<Rightarrow> asset \<Rightarrow> 'p list" where
  "slice_at pricesByAsset a = (case map_of pricesByAsset a of None \<Rightarrow> [] | Some ps \<Rightarrow> ps)"

definition appendPrice :: "asset \<Rightarrow> 'p \<Rightarrow> (asset \<times> 'p list) list \<Rightarrow> (asset \<times> 'p list) list" where
  "appendPrice a price pricesByAsset =
     (let pba = (if map_of pricesByAsset a = None then AList.update a [] pricesByAsset
                 else pricesByAsset)
      in AList.update a (slice_at pba a @ [price]) pba)"

definition gatherProvider :: "(asset \<times> 'p) list \<Rightarrow> (asset \<times> 'p list) list \<Rightarrow> (asset \<times> 'p list) list" where
  "gatherProvider providerPrices pricesByAsset =
     fold (\<lambda>(a, price). appendPrice a price) providerPrices pricesByAsset"

definition gather :: "(provider \<times> (asset \<times> 'p) list) list \<Rightarrow> (asset \<times> 'p list) list" where
  "gather providers = fold (\<lambda>(pr, providerPrices). gatherProvider providerPrices) providers []"

text \<open>
  The body of the second loop: sort, then read index \<^verbatim>\<open>len(prices)/2\<close>.  An index outside
  the slice is a run-time panic in Go; here it is the error \<open>IndexOutOfRange\<close>.
\<close>

definition medianPrice :: "'a TickerPrice_scheme list \<Rightarrow> error + Dec" where
  "medianPrice prices =
     (let sorted = SliceStable priceLT prices; i = length sorted div 2
      in if i < length sorted then Inr (Price (sorted ! i))
         else Inl (IndexOutOfRange i (length sorted)))"

fun medianLoop :: "(asset \<times> 'a TickerPrice_scheme list) list \<Rightarrow> (asset \<rightharpoonup> Dec) \<Rightarrow>
    error + (asset \<rightharpoonup> Dec)" where
  "medianLoop [] medianPrices = Inr medianPrices"
| "medianLoop ((a, prices) # rest) medianPrices =
     (case medianPrice prices of
        Inl e \<Rightarrow> Inl e
      | Inr m \<Rightarrow> medianLoop rest (medianPrices(a \<mapsto> m)))"

definition ComputeMedian :: "'a AggregatedProviderPrices \<Rightarrow> error + (asset \<rightharpoonup> Dec)" where
  "ComputeMedian providers = medianLoop (gather providers) Map.empty"

section \<open>The prices reported for an asset\<close>

text \<open>
  The list \<open>L\<close> of an asset: every price some provider reported for it, in iteration
  order.  These two functions describe the snapshot; they are not part of the program.
\<close>

definition reported :: "asset \<Rightarrow> (asset \<times> 'p) list \<Rightarrow> 'p list" where
  "reported a providerPrices = map snd (filter (\<lambda>kv. fst kv = a) providerPrices)"

definition pricesFor :: "asset \<Rightarrow> (provider \<times> (asset \<times> 'p) list) list \<Rightarrow> 'p list" where
  "pricesFor a providers = concat (map (\<lambda>pp. reported a (snd pp)) providers)"

text \<open>The outer loop of the first phase, started from any \<^verbatim>\<open>pricesByAsset\<close>.\<close>

definition gatherFrom :: "(provider \<times> (asset \<times> 'p) list) list \<Rightarrow> (asset \<times> 'p list) list \<Rightarrow> (asset \<times> 'p list) list" where
  "gatherFrom providers pba = fold (\<lambda>(pr, providerPrices). gatherProvider providerPrices) providers pba"

text \<open>
  The element the second loop selects from a non-empty slice: the price at index
  \<open>length prices div 2\<close> of the sorted slice.
\<close>

definition middle :: "'a TickerPrice_scheme list \<Rightarrow> Dec" where
  "middle prices = Price (SliceStable priceLT prices ! (length prices div 2))"

section \<open>The oracle\<close>

text \<open>
  A Go map is a reference to a map object.  The map objects live in a store, a reference is
  the position of its object there, and \<open>None\<close> is the nil map.  \<^verbatim>\<open>time.Time\<close> is taken as
  an instant on the UTC time line.
\<close>

type_synonym addr = nat
type_synonym mapref = "addr option"
type_synonym time = int

datatype rwmutex = Unlocked | Locked

text \<open>
  The fields of \<^verbatim>\<open>Oracle\<close> that change after construction.  \<open>closer\<close> tells whether the
  \<^verbatim>\<open>ssync.Closer\<close> has been closed.  The logger, the provider list and the two durations
  are configuration; what the providers do in one tick is an input of \<open>tick\<close> below.
\<close>

record Oracle =
  mtx :: rwmutex
  closer :: bool
  lastPriceSync :: time
  status :: bool
  prices :: mapref

text \<open>
  Modelled from the spec: \<^verbatim>\<open>types.PriceAggregator\<close>, whose source is not among the files at
  hand.  It stores one quote map per provider; \<^verbatim>\<open>SetPrices\<close> replaces the provider's slot,
  \<^verbatim>\<open>GetProviderPrices\<close> returns what has been stored.  An aggregator is an object too, and
  the aggregators live in a store of their own.
\<close>

definition NewPriceAggregator :: "'a AggregatedProviderPrices" where
  "NewPriceAggregator = []"

definition Aggregator_SetPrices ::
    "provider \<Rightarrow> 'a provider_prices \<Rightarrow> 'a AggregatedProviderPrices \<Rightarrow> 'a AggregatedProviderPrices" where
  "Aggregator_SetPrices p quotes agg = AList.update p quotes agg"

definition GetProviderPrices :: "'a AggregatedProviderPrices \<Rightarrow> 'a AggregatedProviderPrices" where
  "GetProviderPrices agg = agg"

record 'a memory =
  maps :: "(asset \<rightharpoonup> Dec) list"
  aggs :: "'a AggregatedProviderPrices list"

definition deref :: "(asset \<rightharpoonup> Dec) list \<Rightarrow> mapref \<Rightarrow> (asset \<rightharpoonup> Dec)" where
  "deref ms r = (case r of None \<Rightarrow> Map.empty | Some a \<Rightarrow> ms ! a)"

definition allocated :: "(asset \<rightharpoonup> Dec) list \<Rightarrow> mapref \<Rightarrow> bool" where
  "allocated ms r = (case r of None \<Rightarrow> True | Some a \<Rightarrow> a < length ms)"

subsection \<open>Setters and getters\<close>

text \<open>
  Each of the four methods holds \<^verbatim>\<open>o.mtx\<close> for its whole body and releases it on return,
  so called from a state with the mutex free it acts as one step and leaves the mutex free.
\<close>

definition SetLastSyncTime :: "Oracle \<Rightarrow> time \<Rightarrow> Oracle" where
  "SetLastSyncTime orc t = orc\<lparr>lastPriceSync := t\<rparr>"

definition GetLastSyncTime :: "Oracle \<Rightarrow> time" where
  "GetLastSyncTime orc = lastPriceSync orc"

definition SetPrices :: "Oracle \<Rightarrow> mapref \<Rightarrow> Oracle" where
  "SetPrices orc p = orc\<lparr>prices := p\<rparr>"

text \<open>
  \<^verbatim>\<open>GetPrices\<close>: \<^verbatim>\<open>make\<close> allocates a new, empty map object; \<^verbatim>\<open>maps.Copy(p, o.prices)\<close> stores
  every entry of the source in it.  The result is the new reference and the new store.
\<close>

definition make_map :: "(asset \<rightharpoonup> Dec) list \<Rightarrow> addr \<times> (asset \<rightharpoonup> Dec) list" where
  "make_map ms = (length ms, ms @ [Map.empty])"

definition maps_Copy :: "addr \<Rightarrow> mapref \<Rightarrow> (asset \<rightharpoonup> Dec) list \<Rightarrow> (asset \<rightharpoonup> Dec) list" where
  "maps_Copy dst src ms = ms[dst := (ms ! dst) ++ deref ms src]"

definition GetPrices :: "Oracle \<Rightarrow> (asset \<rightharpoonup> Dec) list \<Rightarrow> mapref \<times> (asset \<rightharpoonup> Dec) list" where
  "GetPrices orc ms = (let (p, ms1) = make_map ms in (Some p, maps_Copy p (prices orc) ms1))"

text \<open>A caller changing a map it holds: any change of the object behind the reference.\<close>

definition mutate :: "mapref \<Rightarrow> ((asset \<rightharpoonup> Dec) \<Rightarrow> (asset \<rightharpoonup> Dec)) \<Rightarrow> (asset \<rightharpoonup> Dec) list \<Rightarrow>
    (asset \<rightharpoonup> Dec) list" where
  "mutate r f ms = (case r of None \<Rightarrow> ms | Some a \<Rightarrow> ms[a := f (ms ! a)])"

subsection \<open>The setters instruction by instruction\<close>

text \<open>
  The bodies of \<^verbatim>\<open>SetPrices\<close> and \<^verbatim>\<open>SetLastSyncTime\<close> as instruction sequences, with the
  mutex explicit.  \<open>Lock\<close> on a held mutex does not proceed, which is \<open>None\<close>.
\<close>

datatype instr = Lock | Unlock | StorePrices mapref | StoreLastPriceSync time

fun exec :: "instr \<Rightarrow> Oracle \<Rightarrow> Oracle option" where
  "exec Lock orc = (if mtx orc = Unlocked then Some (orc\<lparr>mtx := Locked\<rparr>) else None)"
| "exec Unlock orc = (if mtx orc = Locked then Some (orc\<lparr>mtx := Unlocked\<rparr>) else None)"
| "exec (StorePrices p) orc = Some (orc\<lparr>prices := p\<rparr>)"
| "exec (StoreLastPriceSync t) orc = Some (orc\<lparr>lastPriceSync := t\<rparr>)"

definition SetPrices_body :: "mapref \<Rightarrow> instr list" where
  "SetPrices_body p = [Lock, StorePrices p, Unlock]"

definition SetLastSyncTime_body :: "time \<Rightarrow> instr list" where
  "SetLastSyncTime_body t = [Lock, StoreLastPriceSync t, Unlock]"

fun run :: "instr list \<Rightarrow> Oracle \<Rightarrow> Oracle option" where
  "run [] orc = Some orc"
| "run (i # is) orc = (case exec i orc of None \<Rightarrow> None | Some o' \<Rightarrow> run is o')"

text \<open>The states the oracle passes through, the starting state first.\<close>

fun states :: "instr list \<Rightarrow> Oracle \<Rightarrow> Oracle list" where
  "states [] orc = [orc]"
| "states (i # is) orc = orc # (case exec i orc of None \<Rightarrow> [] | Some o' \<Rightarrow> states is o')"

text \<open>
  A reader takes the read side of the mutex, which it gets only while no writer holds it,
  and then sees the map reference \<^verbatim>\<open>GetPrices\<close> copies from and the time
  \<^verbatim>\<open>GetLastSyncTime\<close> returns.
\<close>

definition reader_sees :: "Oracle \<Rightarrow> (mapref \<times> time) option" where
  "reader_sees orc = (if mtx orc = Unlocked then Some (prices orc, lastPriceSync orc) else None)"

definition visible_during :: "instr list \<Rightarrow> Oracle \<Rightarrow> (mapref \<times> time) list" where
  "visible_during code orc = List.map_filter reader_sees (states code orc)"

text \<open>The publication of \<open>tick\<close>: \<^verbatim>\<open>o.SetPrices(medianPrices)\<close>, then \<^verbatim>\<open>o.SetLastSyncTime(now)\<close>.\<close>

definition publication :: "mapref \<Rightarrow> time \<Rightarrow> instr list" where
  "publication p t = SetPrices_body p @ SetLastSyncTime_body t"

subsection \<open>One provider in one tick\<close>

text \<open>
  A call of provider code either returns or panics.  \<^verbatim>\<open>provider.GetPrices()\<close> returns a
  quote map or an error.
\<close>

datatype 'r outcome = Returns 'r | Panics string

text \<open>
  When the fetch goroutine finishes, relative to the two points of the tick that matter:
  before the runner's \<^verbatim>\<open>select\<close> takes a case (\<open>InTime\<close>), after the \<^verbatim>\<open>select\<close> has taken
  the timer case but before \<open>tick\<close> reads the aggregator (\<open>LateBeforeSnapshot\<close>), or after
  \<open>tick\<close> has read the aggregator (\<open>LateAfterSnapshot\<close>).  The source orders these events
  by no lock or channel, so each of the three can happen.
\<close>

datatype arrival = InTime | LateBeforeSnapshot | LateAfterSnapshot

record 'a provider_run =
  handle :: provider
  Name_result :: "string outcome"
  GetPrices_result :: "(error + 'a provider_prices) outcome"
  arrival :: arrival

text \<open>
  The goroutine started by the runner: it fetches, and either stores the quotes in the
  aggregator and signals \<^verbatim>\<open>doneCh\<close>, or sends an error on \<^verbatim>\<open>errCh\<close>; a panic of the
  provider is recovered and sent on \<^verbatim>\<open>errCh\<close> too.  The result is the write to the
  aggregator, if there is one, and the message sent.
\<close>

datatype chan_msg = DoneMsg | ErrMsg error

definition fetch_goroutine :: "'a provider_run \<Rightarrow> (provider \<times> 'a provider_prices) option \<times> chan_msg" where
  "fetch_goroutine r =
     (case GetPrices_result r of
        Panics v \<Rightarrow> (None, ErrMsg (PanicWhenFetchingPrices v))
      | Returns (Inl err) \<Rightarrow> (None, ErrMsg err)
      | Returns (Inr quotes) \<Rightarrow> (Some (handle r, quotes), DoneMsg))"

text \<open>The \<^verbatim>\<open>select\<close> of the runner: the message of the goroutine if it is there in time,
  the timer otherwise.\<close>

datatype select_case = CaseDone | CaseErr error | CaseTimeout

definition select_taken :: "'a provider_run \<Rightarrow> select_case" where
  "select_taken r =
     (if arrival r = InTime
      then (case snd (fetch_goroutine r) of DoneMsg \<Rightarrow> CaseDone | ErrMsg e \<Rightarrow> CaseErr e)
      else CaseTimeout)"

text \<open>
  The body of the closure \<^verbatim>\<open>fetchPricesFn\<close> returns.  Its first statement calls
  \<^verbatim>\<open>provider.Name()\<close>, which is provider code and may panic; then the goroutine is started
  and the \<^verbatim>\<open>select\<close> waits.  Every case of the \<^verbatim>\<open>select\<close> logs and breaks, and the body
  returns nil.
\<close>

definition runner_body :: "'a provider_run \<Rightarrow> error option outcome" where
  "runner_body r =
     (case Name_result r of
        Panics v \<Rightarrow> Panics v
      | Returns name \<Rightarrow>
          (case select_taken r of
             CaseDone \<Rightarrow> Returns None
           | CaseErr e \<Rightarrow> Returns None
           | CaseTimeout \<Rightarrow> Returns None))"

text \<open>
  The deferred function of the closure: a panic of the body is recovered and becomes the
  returned error \<^verbatim>\<open>panic in fetchPricesFn\<close>.
\<close>

definition fetchPricesFn :: "'a provider_run \<Rightarrow> error option" where
  "fetchPricesFn r =
     (case runner_body r of
        Returns err \<Rightarrow> err
      | Panics v \<Rightarrow> Some (PanicInFetchPricesFn v))"

text \<open>
  The writes of a provider's goroutine to the aggregator that land before \<open>tick\<close> reads it,
  and those that land later.  The goroutine exists only if the body got past its first
  statement.
\<close>

definition goroutine_write :: "'a provider_run \<Rightarrow> (provider \<times> 'a provider_prices) list" where
  "goroutine_write r =
     (case Name_result r of
        Panics v \<Rightarrow> []
      | Returns name \<Rightarrow> (case fst (fetch_goroutine r) of None \<Rightarrow> [] | Some w \<Rightarrow> [w]))"

definition writes_before_snapshot :: "'a provider_run \<Rightarrow> (provider \<times> 'a provider_prices) list" where
  "writes_before_snapshot r = (if arrival r = LateAfterSnapshot then [] else goroutine_write r)"

definition writes_after_snapshot :: "'a provider_run \<Rightarrow> (provider \<times> 'a provider_prices) list" where
  "writes_after_snapshot r = (if arrival r = LateAfterSnapshot then goroutine_write r else [])"

subsection \<open>tick\<close>

text \<open>
  \<^verbatim>\<open>errgroup\<close>'s \<^verbatim>\<open>Wait\<close> returns when every runner has returned, with the first non-nil
  error that was recorded, or nil.
\<close>

definition Wait :: "error option list \<Rightarrow> error option" where
  "Wait results = (case filter (\<lambda>r. r \<noteq> None) results of [] \<Rightarrow> None | e # rest \<Rightarrow> e)"

text \<open>A write to an aggregator object: the object's address, the provider and its quotes.\<close>

type_synonym 'a agg_write = "addr \<times> provider \<times> 'a provider_prices"

definition apply_write :: "'a agg_write \<Rightarrow> 'a memory \<Rightarrow> 'a memory" where
  "apply_write w mem =
     (case w of (a, p, quotes) \<Rightarrow>
        if a < length (aggs mem)
        then mem\<lparr>aggs := (aggs mem)[a := Aggregator_SetPrices p quotes (aggs mem ! a)]\<rparr>
        else mem)"

text \<open>
  What one tick meets: the behaviour of each configured provider, the writes of goroutines
  left behind by earlier ticks that land while this tick runs (\<open>stale\<close>), a panic raised
  while the snapshot is reduced (\<open>fault\<close>; the decimal comparison is library code), and the
  reading of the clock.  Logging is taken to have no effect and not to panic.
\<close>

record 'a tick_input =
  runs :: "'a provider_run list"
  stale :: "'a agg_write list"
  fault :: "string option"
  now :: time

definition reduce :: "string option \<Rightarrow> 'a AggregatedProviderPrices \<Rightarrow> error + (asset \<rightharpoonup> Dec)" where
  "reduce flt snapshot =
     (case flt of Some v \<Rightarrow> Inl (RuntimePanic v) | None \<Rightarrow> ComputeMedian snapshot)"

text \<open>
  The first half of \<open>tick\<close>, up to the return of \<^verbatim>\<open>g.Wait()\<close> and the read of the
  aggregator: a new aggregator object is created, and the writes that land until then are
  applied, those of this tick's goroutines to the new aggregator, the stale ones to the
  objects they were started with.
\<close>

definition landed_writes :: "'a memory \<Rightarrow> 'a tick_input \<Rightarrow> 'a agg_write list" where
  "landed_writes mem inp =
     stale inp @ concat (map (\<lambda>r. map (Pair (length (aggs mem))) (writes_before_snapshot r)) (runs inp))"

definition pending_writes :: "'a memory \<Rightarrow> 'a tick_input \<Rightarrow> 'a agg_write list" where
  "pending_writes mem inp =
     concat (map (\<lambda>r. map (Pair (length (aggs mem))) (writes_after_snapshot r)) (runs inp))"

definition fan_in :: "'a memory \<Rightarrow> 'a tick_input \<Rightarrow> 'a memory" where
  "fan_in mem inp =
     fold apply_write (landed_writes mem inp) (mem\<lparr>aggs := aggs mem @ [NewPriceAggregator]\<rparr>)"

text \<open>The snapshot \<open>tick\<close> hands to the reduction: \<^verbatim>\<open>priceAgg.GetProviderPrices()\<close>.\<close>

definition tick_snapshot :: "'a memory \<Rightarrow> 'a tick_input \<Rightarrow> 'a AggregatedProviderPrices" where
  "tick_snapshot mem inp = GetProviderPrices (aggs (fan_in mem inp) ! length (aggs mem))"

text \<open>
  \<open>tick\<close>: a new aggregator and one runner per provider; \<^verbatim>\<open>g.Wait()\<close>; on an error return
  without publishing; otherwise reduce the snapshot, store the new map and then the time.
  A panic of the body is recovered by the deferred function, which only logs.
\<close>

definition tick :: "Oracle \<Rightarrow> 'a memory \<Rightarrow> 'a tick_input \<Rightarrow> Oracle \<times> 'a memory" where
  "tick orc mem inp =
     (let results = map fetchPricesFn (runs inp);
          mem2 = fan_in mem inp
      in case Wait results of
           Some err \<Rightarrow> (orc, mem2)
         | None \<Rightarrow>
            (case reduce (fault inp) (tick_snapshot mem inp) of
               Inl e \<Rightarrow> (orc, mem2)
             | Inr medianPrices \<Rightarrow>
                (let p = length (maps mem2);
                     mem3 = mem2\<lparr>maps := maps mem2 @ [medianPrices]\<rparr>
                 in (SetLastSyncTime (SetPrices orc (Some p)) (now inp), mem3))))"

subsection \<open>Start and Stop\<close>

text \<open>
  \<^verbatim>\<open>Stop\<close> closes the closer and waits until it is closed.  The loop of \<^verbatim>\<open>Start\<close> takes,
  each time round, the case its \<^verbatim>\<open>select\<close> chooses: the context is done (with the error
  \<^verbatim>\<open>ctx.Err()\<close> then returns), the closer is done (a call of \<^verbatim>\<open>Stop\<close> from outside has closed
  it), or the ticker fired.  The cases are given
  as a list; when the list is used up the \<^verbatim>\<open>select\<close> is still waiting and \<^verbatim>\<open>Start\<close> has
  not returned, which is \<open>None\<close>.
\<close>

datatype ctx_error = Canceled | DeadlineExceeded

datatype 'a loop_event = CtxDone ctx_error | CloserDone | TickerC "'a tick_input"

definition Stop :: "Oracle \<Rightarrow> Oracle" where
  "Stop orc = orc\<lparr>closer := True\<rparr>"

fun Start_loop :: "'a loop_event list \<Rightarrow> Oracle \<Rightarrow> 'a memory \<Rightarrow>
    (ctx_error option \<times> Oracle \<times> 'a memory) option" where
  "Start_loop [] orc mem = None"
| "Start_loop (CtxDone err # evs) orc mem = Some (Some err, Stop orc, mem)"
| "Start_loop (CloserDone # evs) orc mem = Some (None, orc\<lparr>closer := True\<rparr>, mem)"
| "Start_loop (TickerC inp # evs) orc mem =
     (case tick orc mem inp of (orc', mem') \<Rightarrow> Start_loop evs orc' mem')"

definition Start :: "'a loop_event list \<Rightarrow> Oracle \<Rightarrow> 'a memory \<Rightarrow>
    (ctx_error option \<times> Oracle \<times> 'a memory) option" where
  "Start evs orc mem =
     (case Start_loop evs (orc\<lparr>status := True\<rparr>) mem of
        None \<Rightarrow> None
      | Some (err, orc', mem') \<Rightarrow> Some (err, orc'\<lparr>status := False\<rparr>, mem'))"

definition is_tick :: "'a loop_event \<Rightarrow> bool" where
  "is_tick ev = (case ev of TickerC inp \<Rightarrow> True | _ \<Rightarrow> False)"

subsection \<open>Writes seen by one aggregator object\<close>

text \<open>The object at one address sees exactly the writes addressed to it, in their order.\<close>

definition writes_to :: "addr \<Rightarrow> 'a agg_write list \<Rightarrow> (provider \<times> 'a provider_prices) list" where
  "writes_to n ws = map snd (filter (\<lambda>w. fst w = n) ws)"

definition store_all :: "(provider \<times> 'a provider_prices) list \<Rightarrow> 'a AggregatedProviderPrices \<Rightarrow>
    'a AggregatedProviderPrices" where
  "store_all ws agg = fold (\<lambda>w. Aggregator_SetPrices (fst w) (snd w)) ws agg"

section \<open>Example snapshots\<close>

text \<open>Four providers quoting one pair: 1800, 1900, 2000 and 2100.\<close>

definition scenarioC :: "unit AggregatedProviderPrices" where
  "scenarioC =
     [(''P1'', [(''ETH/USD'', \<lparr>Price = 1800\<rparr>)]),
      (''P2'', [(''ETH/USD'', \<lparr>Price = 1900\<rparr>)]),
      (''P3'', [(''ETH/USD'', \<lparr>Price = 2000\<rparr>)]),
      (''P4'', [(''ETH/USD'', \<lparr>Price = 2100\<rparr>)])]"

text \<open>Three providers, two pairs; the third provider reports nothing.\<close>

definition snapshotAB :: "unit AggregatedProviderPrices" where
  "snapshotAB =
     [(''P1'', [(''BTC/USD'', \<lparr>Price = 30000\<rparr>), (''ETH/USD'', \<lparr>Price = 1900\<rparr>)]),
      (''P2'', [(''ETH/USD'', \<lparr>Price = 2000\<rparr>)]),
      (''P3'', [])]"

text \<open>The same snapshot as \<open>snapshotAB\<close>, ranged over in another order.\<close>

definition snapshotAB_reordered :: "unit AggregatedProviderPrices" where
  "snapshotAB_reordered =
     [(''P3'', []),
      (''P2'', [(''ETH/USD'', \<lparr>Price = 2000\<rparr>)]),
      (''P1'', [(''ETH/USD'', \<lparr>Price = 1900\<rparr>), (''BTC/USD'', \<lparr>Price = 30000\<rparr>)])]"

text \<open>An oracle that has published one map, at time 0.\<close>

definition oracle0 :: Oracle where
  "oracle0 = \<lparr>mtx = Unlocked, closer = False, lastPriceSync = 0, status = False, prices = Some 0\<rparr>"

definition maps0 :: "(asset \<rightharpoonup> Dec) list" where
  "maps0 = [[''BTC/USD'' \<mapsto> 30000]]"

section \<open>Properties of the stable sort\<close>

lemma SliceStable_snoc: "SliceStable lt (xs @ [x]) = insertStable lt x (SliceStable lt xs)"
  by (simp add: SliceStable_def)

lemma mset_insertStable: "mset (insertStable lt x ys) = add_mset x (mset ys)"
  by (induction ys) auto

lemma mset_SliceStable: "mset (SliceStable lt xs) = mset xs"
  by (induction xs rule: rev_induct) (simp_all add: SliceStable_def mset_insertStable)

lemma set_insertStable: "set (insertStable lt x ys) = insert x (set ys)"
  by (induction ys) auto

lemma sorted_insertStable:
  fixes f :: "'a \<Rightarrow> 'k::linorder"
  shows "sorted (map f ys) \<Longrightarrow> sorted (map f (insertStable (\<lambda>a b. f a < f b) x ys))"
  by (induction ys) (auto simp: set_insertStable)

lemma sorted_SliceStable:
  fixes f :: "'a \<Rightarrow> 'k::linorder"
  shows "sorted (map f (SliceStable (\<lambda>a b. f a < f b) xs))"
  by (induction xs rule: rev_induct) (simp_all add: SliceStable_snoc sorted_insertStable, simp add: SliceStable_def)

lemma filter_insertStable:
  fixes f :: "'a \<Rightarrow> 'k::linorder"
  shows "sorted (map f ys) \<Longrightarrow>
    filter (\<lambda>y. f y = k) (insertStable (\<lambda>a b. f a < f b) x ys) =
    filter (\<lambda>y. f y = k) ys @ (if f x = k then [x] else [])"
proof (induction ys)
  case Nil
  then show ?case by simp
next
  case (Cons y ys)
  show ?case
  proof (cases "f x < f y")
    case True
    with Cons.prems have "\<forall>z \<in> set (y # ys). f x < f z" by auto
    then have "f x = k \<Longrightarrow> filter (\<lambda>y. f y = k) (y # ys) = []"
      by (auto simp: filter_empty_conv)
    with True show ?thesis by auto
  next
    case False
    with Cons show ?thesis by auto
  qed
qed

lemma SliceStable_stable:
  fixes f :: "'a \<Rightarrow> 'k::linorder"
  shows "filter (\<lambda>y. f y = k) (SliceStable (\<lambda>a b. f a < f b) xs) = filter (\<lambda>y. f y = k) xs"
proof (induction xs rule: rev_induct)
  case Nil
  then show ?case by (simp add: SliceStable_def)
next
  case (snoc x xs)
  then show ?case
    by (simp add: SliceStable_snoc filter_insertStable sorted_SliceStable)
qed

lemma SliceStable_sort_key:
  fixes f :: "'a \<Rightarrow> 'k::linorder"
  shows "SliceStable (\<lambda>a b. f a < f b) xs = sort_key f xs"
proof (rule sym, rule properties_for_sort_key)
  show "mset (SliceStable (\<lambda>a b. f a < f b) xs) = mset xs" by (rule mset_SliceStable)
  show "sorted (map f (SliceStable (\<lambda>a b. f a < f b) xs))" by (rule sorted_SliceStable)
  fix k
  show "filter (\<lambda>x. f k = f x) (SliceStable (\<lambda>a b. f a < f b) xs) = filter (\<lambda>x. f k = f x) xs"
    using SliceStable_stable[of f "f k" xs] by (simp add: eq_commute)
qed

section \<open>Properties of the gathering loop\<close>

lemma map_of_appendPrice:
  "map_of (appendPrice a price pba) a' =
     (if a' = a then Some (slice_at pba a @ [price]) else map_of pba a')"
  by (auto simp: appendPrice_def Let_def slice_at_def update_conv' split: option.splits)

lemma distinct_appendPrice:
  "distinct (map fst pba) \<Longrightarrow> distinct (map fst (appendPrice a price pba))"
  by (simp add: appendPrice_def Let_def distinct_update)

lemma map_of_gatherProvider:
  "map_of (gatherProvider pp pba) a =
     (if reported a pp = [] then map_of pba a else Some (slice_at pba a @ reported a pp))"
proof (induction pp arbitrary: pba)
  case Nil
  then show ?case by (simp add: gatherProvider_def reported_def)
next
  case (Cons kv pp)
  obtain a' price where kv: "kv = (a', price)" by (cases kv)
  have step: "gatherProvider (kv # pp) pba = gatherProvider pp (appendPrice a' price pba)"
    by (simp add: gatherProvider_def kv)
  show ?case
    unfolding step Cons.IH
    by (auto simp: kv reported_def map_of_appendPrice slice_at_def)
qed

lemma distinct_gatherProvider:
  "distinct (map fst pba) \<Longrightarrow> distinct (map fst (gatherProvider pp pba))"
proof (induction pp arbitrary: pba)
  case Nil
  then show ?case by (simp add: gatherProvider_def)
next
  case (Cons kv pp)
  obtain a' price where kv: "kv = (a', price)" by (cases kv)
  have step: "gatherProvider (kv # pp) pba = gatherProvider pp (appendPrice a' price pba)"
    by (simp add: gatherProvider_def kv)
  show ?case unfolding step by (rule Cons.IH) (rule distinct_appendPrice, rule Cons.prems)
qed

lemma map_of_gatherFrom:
  "map_of (gatherFrom ps pba) a =
     (if pricesFor a ps = [] then map_of pba a else Some (slice_at pba a @ pricesFor a ps))"
proof (induction ps arbitrary: pba)
  case Nil
  then show ?case by (simp add: gatherFrom_def pricesFor_def)
next
  case (Cons q ps)
  obtain pr pp where q: "q = (pr, pp)" by (cases q)
  have step: "gatherFrom (q # ps) pba = gatherFrom ps (gatherProvider pp pba)"
    by (simp add: gatherFrom_def q)
  have pf: "pricesFor a (q # ps) = reported a pp @ pricesFor a ps"
    by (simp add: pricesFor_def q)
  show ?case
    unfolding step Cons.IH pf
    by (auto simp: map_of_gatherProvider slice_at_def)
qed

lemma distinct_gatherFrom:
  "distinct (map fst pba) \<Longrightarrow> distinct (map fst (gatherFrom ps pba))"
proof (induction ps arbitrary: pba)
  case Nil
  then show ?case by (simp add: gatherFrom_def)
next
  case (Cons q ps)
  obtain pr pp where q: "q = (pr, pp)" by (cases q)
  have step: "gatherFrom (q # ps) pba = gatherFrom ps (gatherProvider pp pba)"
    by (simp add: gatherFrom_def q)
  show ?case unfolding step by (rule Cons.IH) (rule distinct_gatherProvider, rule Cons.prems)
qed

lemma map_of_gather:
  "map_of (gather ps) a = (if pricesFor a ps = [] then None else Some (pricesFor a ps))"
  using map_of_gatherFrom[of ps "[]" a] by (simp add: gatherFrom_def gather_def slice_at_def)

lemma distinct_gather: "distinct (map fst (gather ps))"
  using distinct_gatherFrom[of "[]" ps] by (simp add: gatherFrom_def gather_def)

lemma gather_nonempty: "(a, prs) \<in> set (gather ps) \<Longrightarrow> prs \<noteq> [] \<and> prs = pricesFor a ps"
proof -
  assume "(a, prs) \<in> set (gather ps)"
  then have "map_of (gather ps) a = Some prs"
    using distinct_gather[of ps] by (simp only: map_of_eq_Some_iff)
  then show ?thesis by (simp add: map_of_gather split: if_splits)
qed

section \<open>Properties of the median loop\<close>

lemma length_SliceStable: "length (SliceStable lt xs) = length xs"
  using mset_SliceStable[of lt xs] by (metis size_mset)

lemma priceLT_sort_key: "SliceStable priceLT xs = sort_key Price xs"
proof -
  have "SliceStable priceLT xs = SliceStable (\<lambda>a b. Price a < Price b) xs"
    by (simp add: priceLT_def[abs_def])
  then show ?thesis by (simp only: SliceStable_sort_key)
qed

lemma medianPrice_nonempty: "prs \<noteq> [] \<Longrightarrow> medianPrice prs = Inr (middle prs)"
  by (simp add: medianPrice_def middle_def Let_def length_SliceStable)

lemma medianPrice_empty: "medianPrice [] = Inl (IndexOutOfRange 0 0)"
  by (simp add: medianPrice_def Let_def SliceStable_def)

lemma medianLoop_ok:
  "\<forall>kv \<in> set kvs. snd kv \<noteq> [] \<Longrightarrow>
   medianLoop kvs mp = Inr (mp ++ map_of (rev (map (\<lambda>kv. (fst kv, middle (snd kv))) kvs)))"
proof (induction kvs arbitrary: mp)
  case Nil
  then show ?case by simp
next
  case (Cons kv kvs)
  obtain a prs where kv: "kv = (a, prs)" by (cases kv)
  from Cons.prems have ne: "prs \<noteq> []" and rest: "\<forall>kv \<in> set kvs. snd kv \<noteq> []"
    by (auto simp: kv)
  have "medianLoop (kv # kvs) mp = medianLoop kvs (mp(a \<mapsto> middle prs))"
    by (simp add: kv medianPrice_nonempty[OF ne])
  also have "\<dots> = Inr (mp(a \<mapsto> middle prs) ++ map_of (rev (map (\<lambda>kv. (fst kv, middle (snd kv))) kvs)))"
    by (rule Cons.IH[OF rest])
  also have "mp(a \<mapsto> middle prs) ++ map_of (rev (map (\<lambda>kv. (fst kv, middle (snd kv))) kvs))
      = mp ++ map_of (rev (map (\<lambda>kv. (fst kv, middle (snd kv))) (kv # kvs)))"
    by (rule ext) (simp add: kv map_add_def split: option.splits)
  finally show ?case .
qed

lemma map_of_rev_distinct:
  "distinct (map fst kvs) \<Longrightarrow> map_of (rev kvs) = map_of kvs"
proof (induction kvs)
  case Nil
  then show ?case by simp
next
  case (Cons kv kvs)
  then have "fst kv \<notin> dom (map_of kvs)" by (simp add: dom_map_of_conv_image_fst)
  then have "map_of kvs (fst kv) = None" by blast
  with Cons show ?case
    by (cases kv) (auto simp: fun_eq_iff map_add_def split: option.splits)
qed

lemma medianLoop_lookup:
  assumes ne: "\<forall>kv \<in> set kvs. snd kv \<noteq> []" and d: "distinct (map fst kvs)"
  shows "medianLoop kvs mp =
    Inr (\<lambda>a. case map_of kvs a of None \<Rightarrow> mp a | Some prs \<Rightarrow> Some (middle prs))"
proof -
  let ?g = "\<lambda>kv. (fst kv, middle (snd kv))"
  have d': "distinct (map fst (map ?g kvs))" using d by (simp add: comp_def)
  have m: "map_of (map ?g kvs) a = map_option middle (map_of kvs a)" for a
    by (induction kvs) auto
  have "mp ++ map_of (rev (map ?g kvs)) =
      (\<lambda>a. case map_of kvs a of None \<Rightarrow> mp a | Some prs \<Rightarrow> Some (middle prs))"
    unfolding map_of_rev_distinct[OF d']
    by (rule ext) (simp add: map_add_def m split: option.splits)
  with medianLoop_ok[OF ne, of mp] show ?thesis by simp
qed

lemma gather_all_nonempty: "\<forall>kv \<in> set (gather ps). snd kv \<noteq> []"
  using gather_nonempty[of _ _ ps] by (metis prod.collapse)

lemma ComputeMedian_eq:
  "ComputeMedian ps =
     Inr (\<lambda>a. if pricesFor a ps = [] then None else Some (middle (pricesFor a ps)))"
  unfolding ComputeMedian_def medianLoop_lookup[OF gather_all_nonempty distinct_gather]
  by (simp add: fun_eq_iff map_of_gather)

section \<open>The selected element as an order statistic\<close>

lemma sorted_below_index:
  fixes ks :: "'k::linorder list"
  assumes "sorted ks" and "i < length ks"
  shows "length (filter (\<lambda>k. k < ks ! i) ks) \<le> i"
proof -
  have "\<forall>k \<in> set (drop i ks). \<not> k < ks ! i"
  proof
    fix k assume "k \<in> set (drop i ks)"
    then obtain j where "j < length (drop i ks)" and "k = drop i ks ! j"
      by (auto simp: in_set_conv_nth)
    then have "k = ks ! (i + j)" and "i + j < length ks" using assms(2) by auto
    with sorted_nth_mono[OF assms(1), of i "i + j"] show "\<not> k < ks ! i" by auto
  qed
  then have "filter (\<lambda>k. k < ks ! i) (drop i ks) = []" by (simp add: filter_empty_conv)
  moreover have "filter (\<lambda>k. k < ks ! i) ks =
      filter (\<lambda>k. k < ks ! i) (take i ks) @ filter (\<lambda>k. k < ks ! i) (drop i ks)"
    by (metis append_take_drop_id filter_append)
  ultimately have "length (filter (\<lambda>k. k < ks ! i) ks) \<le> length (take i ks)"
    by (simp del: length_take)
  then show ?thesis using assms(2) by simp
qed

lemma sorted_above_index:
  fixes ks :: "'k::linorder list"
  assumes "sorted ks" and "i < length ks"
  shows "length (filter (\<lambda>k. ks ! i < k) ks) \<le> length ks - Suc i"
proof -
  have "\<forall>k \<in> set (take (Suc i) ks). \<not> ks ! i < k"
  proof
    fix k assume "k \<in> set (take (Suc i) ks)"
    then obtain j where "j < length (take (Suc i) ks)" and "k = take (Suc i) ks ! j"
      by (auto simp: in_set_conv_nth)
    then have "k = ks ! j" and "j \<le> i" by auto
    with sorted_nth_mono[OF assms(1), of j i] assms(2) show "\<not> ks ! i < k" by auto
  qed
  then have "filter (\<lambda>k. ks ! i < k) (take (Suc i) ks) = []" by (simp add: filter_empty_conv)
  moreover have "filter (\<lambda>k. ks ! i < k) ks =
      filter (\<lambda>k. ks ! i < k) (take (Suc i) ks) @ filter (\<lambda>k. ks ! i < k) (drop (Suc i) ks)"
    by (metis append_take_drop_id filter_append)
  ultimately have "length (filter (\<lambda>k. ks ! i < k) ks) \<le> length (drop (Suc i) ks)"
    by (simp del: length_drop)
  then show ?thesis by simp
qed

lemma length_filter_mset_eq:
  "mset xs = mset ys \<Longrightarrow> length (filter P xs) = length (filter P ys)"
  by (metis mset_filter size_mset)

lemma middle_order_statistic:
  assumes ne: "prs \<noteq> []"
  shows "length (filter (\<lambda>x. Price x < middle prs) prs) \<le> length prs div 2"
    and "length (filter (\<lambda>x. middle prs < Price x) prs) \<le> (length prs - 1) div 2"
proof -
  let ?S = "SliceStable priceLT prs"
  let ?ks = "map Price ?S"
  let ?i = "length prs div 2"
  have len: "length ?ks = length prs" by (simp add: length_SliceStable)
  have i: "?i < length ?ks" using ne unfolding len by simp
  have srt: "sorted ?ks" by (simp add: priceLT_sort_key)
  have mid: "middle prs = ?ks ! ?i" using i by (simp add: middle_def)
  have ms: "mset ?S = mset prs" by (rule mset_SliceStable)
  have "length (filter (\<lambda>x. Price x < middle prs) prs) =
        length (filter (\<lambda>x. Price x < middle prs) ?S)"
    by (rule length_filter_mset_eq[OF ms[symmetric]])
  also have "\<dots> = length (filter (\<lambda>k. k < ?ks ! ?i) ?ks)"
    by (simp add: mid filter_map comp_def)
  also have "\<dots> \<le> ?i" by (rule sorted_below_index[OF srt i])
  finally show "length (filter (\<lambda>x. Price x < middle prs) prs) \<le> length prs div 2" .
  have "length (filter (\<lambda>x. middle prs < Price x) prs) =
        length (filter (\<lambda>x. middle prs < Price x) ?S)"
    by (rule length_filter_mset_eq[OF ms[symmetric]])
  also have "\<dots> = length (filter (\<lambda>k. ?ks ! ?i < k) ?ks)"
    by (simp add: mid filter_map comp_def)
  also have "\<dots> \<le> length ?ks - Suc ?i" by (rule sorted_above_index[OF srt i])
  also have "\<dots> = (length prs - 1) div 2" unfolding len by presburger
  finally show "length (filter (\<lambda>x. middle prs < Price x) prs) \<le> (length prs - 1) div 2" .
qed

lemma pricesFor_nonempty_iff:
  "pricesFor a ps \<noteq> [] \<longleftrightarrow> (\<exists>pr pp tp. (pr, pp) \<in> set ps \<and> (a, tp) \<in> set pp)"
  by (simp add: pricesFor_def reported_def filter_empty_conv) force

lemma set_pricesFor:
  "set (pricesFor a ps) = {tp. \<exists>pr pp. (pr, pp) \<in> set ps \<and> (a, tp) \<in> set pp}"
  by (force simp: pricesFor_def reported_def)

section \<open>Evaluation on the example snapshots\<close>

lemma ComputeMedian_snapshotAB:
  "ComputeMedian snapshotAB = Inr [''BTC/USD'' \<mapsto> 30000, ''ETH/USD'' \<mapsto> 2000]"
  by (simp add: ComputeMedian_def snapshotAB_def gather_def gatherProvider_def appendPrice_def
      slice_at_def medianPrice_def SliceStable_def priceLT_def Let_def)


section \<open>The selected element depends on the multiset of prs only\<close>

lemma mset_reported:
  "mset (reported a pp) = image_mset snd (filter_mset (\<lambda>kv. fst kv = a) (mset pp))"
  by (simp add: reported_def)

lemma mset_pricesFor:
  "mset (pricesFor a ps) =
     (\<Sum>q \<in># image_mset (\<lambda>q. (fst q, mset (snd q))) (mset ps).
        image_mset snd (filter_mset (\<lambda>kv. fst kv = a) (snd q)))"
  by (induction ps) (simp_all add: pricesFor_def mset_reported)

lemma middle_mset:
  assumes "mset xs = mset ys"
  shows "middle xs = middle ys"
proof -
  have len: "length xs = length ys" using assms by (metis size_mset)
  have "mset (map Price xs) = mset (map Price ys)" using assms by (metis mset_map)
  then have "sort (map Price xs) = sort (map Price ys)"
    by (metis properties_for_sort mset_sort sorted_sort)
  moreover have "map Price (sort_key Price zs) = sort (map Price zs)" for zs :: "'a TickerPrice_scheme list"
    by (rule sym, rule properties_for_sort) simp_all
  ultimately have s: "map Price (sort_key Price xs) = map Price (sort_key Price ys)" by simp
  show ?thesis
  proof (cases "xs = []")
    case True
    with len show ?thesis by simp
  next
    case False
    then have i: "length xs div 2 < length xs" by simp
    have "Price (sort_key Price xs ! (length xs div 2)) = map Price (sort_key Price xs) ! (length xs div 2)"
      using i by simp
    also have "\<dots> = map Price (sort_key Price ys) ! (length ys div 2)" by (simp only: s len)
    also have "\<dots> = Price (sort_key Price ys ! (length ys div 2))" using i len by simp
    finally show ?thesis by (simp add: middle_def priceLT_sort_key)
  qed
qed

lemma map_of_mset_eq:
  assumes "mset kvs = mset kvs'" and "distinct (map fst kvs')"
  shows "map_of kvs = map_of kvs'"
proof -
  have "mset (map fst kvs) = mset (map fst kvs')" using assms(1) by (metis mset_map)
  then have "distinct (map fst kvs)" using assms(2) by (metis mset_eq_imp_distinct_iff)
  moreover have "set kvs = set kvs'" using assms(1) by (rule mset_eq_setD)
  ultimately show ?thesis using assms(2) by (simp add: map_of_inject_set)
qed

lemma gather_snapshotAB_reordered:
  "gather snapshotAB_reordered =
     [(''ETH/USD'', [\<lparr>Price = 2000\<rparr>, \<lparr>Price = 1900\<rparr>]), (''BTC/USD'', [\<lparr>Price = 30000\<rparr>])]"
  by (simp add: snapshotAB_reordered_def gather_def gatherProvider_def appendPrice_def
      slice_at_def Let_def)

section \<open>Properties of the setters and getters\<close>

lemma GetPrices_eq:
  "GetPrices orc ms = (Some (length ms), ms @ [deref ms (prices orc)])" if "allocated ms (prices orc)"
  using that
  by (cases "prices orc")
     (simp_all add: GetPrices_def make_map_def maps_Copy_def deref_def allocated_def nth_append)

lemma run_SetPrices_body:
  "mtx orc = Unlocked \<Longrightarrow> run (SetPrices_body p) orc = Some (SetPrices orc p)"
  by (simp add: SetPrices_body_def SetPrices_def)

lemma run_SetLastSyncTime_body:
  "mtx orc = Unlocked \<Longrightarrow> run (SetLastSyncTime_body t) orc = Some (SetLastSyncTime orc t)"
  by (simp add: SetLastSyncTime_body_def SetLastSyncTime_def)

section \<open>Properties of the memory during a tick\<close>

lemma maps_apply_write [simp]: "maps (apply_write w mem) = maps mem"
  by (cases w) (simp add: apply_write_def)

lemma length_aggs_apply_write [simp]: "length (aggs (apply_write w mem)) = length (aggs mem)"
  by (cases w) (simp add: apply_write_def)

lemma maps_fold_apply_write [simp]: "maps (fold apply_write ws mem) = maps mem"
  by (induction ws arbitrary: mem) simp_all

lemma length_aggs_fold_apply_write [simp]:
  "length (aggs (fold apply_write ws mem)) = length (aggs mem)"
  by (induction ws arbitrary: mem) simp_all

lemma maps_fan_in [simp]: "maps (fan_in mem inp) = maps mem"
  by (simp add: fan_in_def)

lemma length_aggs_fan_in [simp]: "length (aggs (fan_in mem inp)) = Suc (length (aggs mem))"
  by (simp add: fan_in_def)

lemma aggs_apply_write_nth:
  "n < length (aggs mem) \<Longrightarrow>
   aggs (apply_write w mem) ! n = store_all (writes_to n [w]) (aggs mem ! n)"
  by (cases w) (auto simp: apply_write_def writes_to_def store_all_def)

lemma aggs_fold_apply_write_nth:
  "n < length (aggs mem) \<Longrightarrow>
   aggs (fold apply_write ws mem) ! n = store_all (writes_to n ws) (aggs mem ! n)"
proof (induction ws arbitrary: mem)
  case Nil
  then show ?case by (simp add: writes_to_def store_all_def)
next
  case (Cons w ws)
  then have "aggs (fold apply_write ws (apply_write w mem)) ! n =
      store_all (writes_to n ws) (aggs (apply_write w mem) ! n)"
    by simp
  with Cons.prems show ?case
    by (simp add: aggs_apply_write_nth) (simp add: writes_to_def store_all_def)
qed

lemma writes_to_own:
  "writes_to n (concat (map (\<lambda>r. map (Pair n) (f r)) rs)) = concat (map f rs)"
  by (induction rs) (simp_all add: writes_to_def comp_def)

lemma writes_to_stale: "\<forall>w \<in> set ws. fst w < n \<Longrightarrow> writes_to n ws = []"
  by (auto simp: writes_to_def filter_empty_conv)

lemma tick_snapshot_eq:
  assumes "\<forall>w \<in> set (stale inp). fst w < length (aggs mem)"
  shows "tick_snapshot mem inp =
    store_all (concat (map writes_before_snapshot (runs inp))) NewPriceAggregator"
proof -
  let ?n = "length (aggs mem)"
  let ?mem1 = "mem\<lparr>aggs := aggs mem @ [NewPriceAggregator]\<rparr>"
  have n: "?n < length (aggs ?mem1)" by simp
  have "writes_to ?n (landed_writes mem inp) = concat (map writes_before_snapshot (runs inp))"
    unfolding landed_writes_def
    using writes_to_stale[OF assms] writes_to_own[of ?n writes_before_snapshot "runs inp"]
    by (simp add: writes_to_def)
  then show ?thesis
    unfolding tick_snapshot_def fan_in_def GetProviderPrices_def
      aggs_fold_apply_write_nth[OF n]
    by simp
qed

lemma older_aggs_fan_in:
  "n < length (aggs mem) \<Longrightarrow>
   aggs (fan_in mem inp) ! n = store_all (writes_to n (stale inp)) (aggs mem ! n)"
proof -
  assume n: "n < length (aggs mem)"
  let ?mem1 = "mem\<lparr>aggs := aggs mem @ [NewPriceAggregator]\<rparr>"
  have n1: "n < length (aggs ?mem1)" using n by simp
  have "writes_to n (landed_writes mem inp) = writes_to n (stale inp)"
    using n by (auto simp: landed_writes_def writes_to_def filter_empty_conv)
  then show ?thesis
    unfolding fan_in_def aggs_fold_apply_write_nth[OF n1] using n by (simp add: nth_append)
qed

section \<open>ComputeMedian: the claims\<close>

text \<open>
  Claim C1.  For every currency pair \<open>p\<close> that some provider of the snapshot reports,
  \<open>ComputeMedian\<close> returns a map whose entry for \<open>p\<close> is the price at zero-based index
  \<open>length L div 2\<close> of \<open>S\<close>, where \<open>L\<close> is the list of all prices reported for \<open>p\<close> and
  \<open>S\<close> is \<open>L\<close> sorted by the stable sort: \<open>S\<close> is a permutation of \<open>L\<close>, non-decreasing
  in price, and keeps the order of \<open>L\<close> among equal prices.  The entry is a reported price,
  never an average; at most \<open>length L div 2\<close> prices lie below it and at most
  \<open>(length L - 1) div 2\<close> above it, which makes it the median for odd \<open>length L\<close> and the
  upper of the two middle elements for even \<open>length L\<close>.
\<close>

theorem ComputeMedian_selects_middle_of_stable_sort:
  fixes providers :: "'a AggregatedProviderPrices"
  assumes "(pr, pp) \<in> set providers" and "(p, tp) \<in> set pp"
  shows "\<exists>m S. ComputeMedian providers = Inr m
     \<and> S = SliceStable priceLT (pricesFor p providers)
     \<and> mset S = mset (pricesFor p providers)
     \<and> sorted (map Price S)
     \<and> (\<forall>k. filter (\<lambda>x. Price x = k) S = filter (\<lambda>x. Price x = k) (pricesFor p providers))
     \<and> length (pricesFor p providers) div 2 < length S
     \<and> m p = Some (Price (S ! (length (pricesFor p providers) div 2)))
     \<and> length (filter (\<lambda>x. Price x < Price (S ! (length S div 2))) (pricesFor p providers))
          \<le> length S div 2
     \<and> length (filter (\<lambda>x. Price (S ! (length S div 2)) < Price x) (pricesFor p providers))
          \<le> (length S - 1) div 2"
proof -
  let ?L = "pricesFor p providers"
  let ?S = "SliceStable priceLT ?L"
  have ne: "?L \<noteq> []" using assms pricesFor_nonempty_iff[of p providers] by blast
  have len: "length ?S = length ?L" by (rule length_SliceStable)
  have mid: "middle ?L = Price (?S ! (length ?S div 2))" by (simp add: middle_def len)
  have "ComputeMedian providers =
      Inr (\<lambda>a. if pricesFor a providers = [] then None else Some (middle (pricesFor a providers)))"
    by (rule ComputeMedian_eq)
  moreover have "mset ?S = mset ?L" by (rule mset_SliceStable)
  moreover have "sorted (map Price ?S)" by (simp add: priceLT_sort_key)
  moreover have "\<forall>k. filter (\<lambda>x. Price x = k) ?S = filter (\<lambda>x. Price x = k) ?L"
    by (simp add: priceLT_sort_key sort_key_stable)
  moreover have "length ?L div 2 < length ?S" using ne unfolding len by simp
  moreover have "length (filter (\<lambda>x. Price x < Price (?S ! (length ?S div 2))) ?L) \<le> length ?S div 2"
    using middle_order_statistic(1)[OF ne] unfolding mid len .
  moreover have "length (filter (\<lambda>x. Price (?S ! (length ?S div 2)) < Price x) ?L) \<le> (length ?S - 1) div 2"
    using middle_order_statistic(2)[OF ne] unfolding mid len .
  ultimately show ?thesis using ne by (simp add: middle_def)
qed

text \<open>Scenario C: four providers quoting 1800, 1900, 2000 and 2100 give index 2, that is 2000.\<close>

theorem ComputeMedian_selects_middle_witness:
  "(''P1'', [(''ETH/USD'', \<lparr>Price = 1800\<rparr>)]) \<in> set scenarioC
   \<and> (''ETH/USD'', \<lparr>Price = 1800\<rparr>) \<in> set [(''ETH/USD'', \<lparr>Price = 1800\<rparr>)]
   \<and> (\<exists>m. ComputeMedian scenarioC = Inr m \<and> m ''ETH/USD'' = Some 2000)"
proof -
  have h1: "(''P1'', [(''ETH/USD'', \<lparr>Price = 1800\<rparr>)]) \<in> set scenarioC"
    by (simp add: scenarioC_def)
  have h2: "(''ETH/USD'', \<lparr>Price = 1800\<rparr>) \<in> set [(''ETH/USD'', \<lparr>Price = 1800\<rparr>)]"
    by simp
  have L: "pricesFor ''ETH/USD'' scenarioC =
      [\<lparr>Price = 1800\<rparr>, \<lparr>Price = 1900\<rparr>, \<lparr>Price = 2000\<rparr>, \<lparr>Price = 2100\<rparr>]"
    by (simp add: scenarioC_def pricesFor_def reported_def)
  have S: "SliceStable priceLT [\<lparr>Price = 1800\<rparr>, \<lparr>Price = 1900\<rparr>, \<lparr>Price = 2000\<rparr>, \<lparr>Price = 2100\<rparr>]
      = [\<lparr>Price = 1800\<rparr>, \<lparr>Price = 1900\<rparr>, \<lparr>Price = 2000\<rparr>, \<lparr>Price = 2100\<rparr>]"
    by (simp add: SliceStable_def priceLT_def)
  from ComputeMedian_selects_middle_of_stable_sort[OF h1 h2]
  obtain m where "ComputeMedian scenarioC = Inr m"
    and "m ''ETH/USD'' = Some (Price (SliceStable priceLT (pricesFor ''ETH/USD'' scenarioC)
           ! (length (pricesFor ''ETH/USD'' scenarioC) div 2)))"
    by blast
  then have "ComputeMedian scenarioC = Inr m \<and> m ''ETH/USD'' = Some 2000"
    by (simp add: L S)
  with h1 h2 show ?thesis by blast
qed

text \<open>
  Claim C6.  \<open>ComputeMedian\<close> is deterministic.  Let \<open>ps\<close> and \<open>ps'\<close> be two iteration
  orders of one snapshot (the providers in any order, each provider's entries in any order),
  and let \<open>kvs\<close> be the entries of \<open>pricesByAsset\<close> in any order for the second loop.
  Then the second loop over \<open>kvs\<close> yields the map \<open>ComputeMedian ps\<close>, and so does
  \<open>ComputeMedian ps'\<close>.
\<close>

theorem ComputeMedian_deterministic:
  fixes ps ps' :: "'a AggregatedProviderPrices"
  assumes same: "image_mset (\<lambda>q. (fst q, mset (snd q))) (mset ps) =
                 image_mset (\<lambda>q. (fst q, mset (snd q))) (mset ps')"
    and order2: "mset kvs = mset (gather ps')"
  shows "medianLoop kvs Map.empty = ComputeMedian ps \<and> ComputeMedian ps' = ComputeMedian ps"
proof -
  have L: "mset (pricesFor a ps') = mset (pricesFor a ps)" for a
    by (simp only: mset_pricesFor same)
  have mid: "middle (pricesFor a ps') = middle (pricesFor a ps)" for a
    by (rule middle_mset[OF L])
  have emp: "pricesFor a ps' = [] \<longleftrightarrow> pricesFor a ps = []" for a
    using L[of a] by (metis mset_zero_iff)
  have eq: "ComputeMedian ps' = ComputeMedian ps"
    unfolding ComputeMedian_eq by (simp only: mid emp)
  have d: "distinct (map fst kvs)"
    using order2 distinct_gather[of ps'] by (metis mset_eq_imp_distinct_iff mset_map)
  have ne: "\<forall>kv \<in> set kvs. snd kv \<noteq> []"
    using gather_all_nonempty[of ps'] mset_eq_setD[OF order2] by simp
  have "medianLoop kvs Map.empty =
      Inr (\<lambda>a. case map_of kvs a of None \<Rightarrow> None | Some prs \<Rightarrow> Some (middle prs))"
    by (rule medianLoop_lookup[OF ne d])
  also have "map_of kvs = map_of (gather ps')"
    by (rule map_of_mset_eq[OF order2 distinct_gather])
  also have "Inr (\<lambda>a. case map_of (gather ps') a of None \<Rightarrow> None | Some prs \<Rightarrow> Some (middle prs))
      = ComputeMedian ps'"
    by (simp add: ComputeMedian_def medianLoop_lookup[OF gather_all_nonempty distinct_gather])
  finally show ?thesis using eq by simp
qed

theorem ComputeMedian_deterministic_witness:
  "image_mset (\<lambda>q. (fst q, mset (snd q))) (mset snapshotAB) =
     image_mset (\<lambda>q. (fst q, mset (snd q))) (mset snapshotAB_reordered)
   \<and> mset [(''BTC/USD'', [\<lparr>Price = 30000\<rparr>]), (''ETH/USD'', [\<lparr>Price = 2000\<rparr>, \<lparr>Price = 1900\<rparr>])]
       = mset (gather snapshotAB_reordered)
   \<and> medianLoop [(''BTC/USD'', [\<lparr>Price = 30000\<rparr>]), (''ETH/USD'', [\<lparr>Price = 2000\<rparr>, \<lparr>Price = 1900\<rparr>])]
        Map.empty = ComputeMedian snapshotAB
   \<and> ComputeMedian snapshotAB_reordered = ComputeMedian snapshotAB"
proof -
  have h1: "image_mset (\<lambda>q. (fst q, mset (snd q))) (mset snapshotAB) =
     image_mset (\<lambda>q. (fst q, mset (snd q))) (mset snapshotAB_reordered)"
    by (simp add: snapshotAB_def snapshotAB_reordered_def add_mset_commute)
  have h2: "mset [(''BTC/USD'', [\<lparr>Price = 30000\<rparr>]), (''ETH/USD'', [\<lparr>Price = 2000\<rparr>, \<lparr>Price = 1900\<rparr>])]
       = mset (gather snapshotAB_reordered)"
    by (simp add: gather_snapshotAB_reordered add_mset_commute)
  from ComputeMedian_deterministic[OF h1 h2] h1 h2 show ?thesis by blast
qed

text \<open>
  Claim C7.  \<open>ComputeMedian\<close> returns a map whose domain is exactly the set of pairs
  reported by at least one provider; every price in it is the price of an entry some
  provider reported for that pair; the empty snapshot yields the empty map and no error.
\<close>

theorem ComputeMedian_domain:
  fixes providers :: "'a AggregatedProviderPrices"
  shows "\<exists>m. ComputeMedian providers = Inr m
     \<and> dom m = {a. \<exists>pr pp tp. (pr, pp) \<in> set providers \<and> (a, tp) \<in> set pp}
     \<and> (\<forall>a d. m a = Some d \<longrightarrow>
           (\<exists>pr pp tp. (pr, pp) \<in> set providers \<and> (a, tp) \<in> set pp \<and> Price tp = d))
     \<and> ComputeMedian ([] :: 'a AggregatedProviderPrices) = Inr Map.empty"
proof -
  let ?m = "\<lambda>a. if pricesFor a providers = [] then None else Some (middle (pricesFor a providers))"
  have eq: "ComputeMedian providers = Inr ?m" by (rule ComputeMedian_eq)
  have d: "dom ?m = {a. \<exists>pr pp tp. (pr, pp) \<in> set providers \<and> (a, tp) \<in> set pp}"
    using pricesFor_nonempty_iff[of _ providers] by (auto simp: dom_def)
  have r: "\<exists>pr pp tp. (pr, pp) \<in> set providers \<and> (a, tp) \<in> set pp \<and> Price tp = d"
    if "?m a = Some d" for a d
  proof -
    let ?L = "pricesFor a providers"
    from that have ne: "?L \<noteq> []" and dm: "d = middle ?L" by (auto split: if_splits)
    have "length ?L div 2 < length (SliceStable priceLT ?L)"
      using ne by (simp add: length_SliceStable)
    then have "SliceStable priceLT ?L ! (length ?L div 2) \<in> set (SliceStable priceLT ?L)"
      by (rule nth_mem)
    then have "SliceStable priceLT ?L ! (length ?L div 2) \<in> set ?L"
      by (simp add: priceLT_sort_key)
    then show ?thesis unfolding set_pricesFor dm middle_def by blast
  qed
  have e: "ComputeMedian ([] :: 'a AggregatedProviderPrices) = Inr Map.empty"
    by (simp add: ComputeMedian_def gather_def)
  from eq d r e show ?thesis by blast
qed

theorem ComputeMedian_domain_witness:
  "\<exists>m. ComputeMedian snapshotAB = Inr m
     \<and> m ''BTC/USD'' = Some 30000
     \<and> ''BTC/USD'' \<in> dom m \<and> ''ATOM/USD'' \<notin> dom m
     \<and> (\<exists>pr pp tp. (pr, pp) \<in> set snapshotAB \<and> (''BTC/USD'', tp) \<in> set pp \<and> Price tp = 30000)"
proof -
  from ComputeMedian_domain[of snapshotAB] obtain m where
    m: "ComputeMedian snapshotAB = Inr m"
    and d: "dom m = {a. \<exists>pr pp tp. (pr, pp) \<in> set snapshotAB \<and> (a, tp) \<in> set pp}"
    and r: "\<forall>a d. m a = Some d \<longrightarrow>
           (\<exists>pr pp tp. (pr, pp) \<in> set snapshotAB \<and> (a, tp) \<in> set pp \<and> Price tp = d)"
    by blast
  from m have v: "m ''BTC/USD'' = Some 30000" by (auto simp: ComputeMedian_snapshotAB)
  with r have p: "\<exists>pr pp tp. (pr, pp) \<in> set snapshotAB \<and> (''BTC/USD'', tp) \<in> set pp \<and> Price tp = 30000"
    by blast
  have n: "''ATOM/USD'' \<notin> dom m" unfolding d by (auto simp: snapshotAB_def)
  from m v p n show ?thesis by blast
qed



end
